theory Spec2Isabelle
  imports Main
begin

section \<open>Batch resolution of REDCap locking issues\<close>

text \<open>
  A shallow embedding of \<^verbatim>\<open>scripts/reporting/batch_resolve_locking_issues.py\<close>:
  \<^verbatim>\<open>run_batch\<close> (the loop over the scraped tickets and over each ticket's commands)
  and \<^verbatim>\<open>main\<close> (the connection to the record store and the metadata table).

  The script imports \<^verbatim>\<open>batch_script_utils\<close> and \<^verbatim>\<open>commands\<close>, whose code is not
  part of the files at hand. What \<^verbatim>\<open>run_batch\<close> reads from their objects is modelled as
  record fields, and what those modules compute (the outcome of a command run against
  the record store, the tracker's answer to a write, the scraper, the verification, the
  texts) is taken as a parameter, collected in the record \<open>externals\<close>. The record store and the tracker are an abstract world \<open>'w\<close>.
\<close>

subsection \<open>Objects\<close>

text \<open>
  A command parsed from a ticket. \<^verbatim>\<open>run_batch\<close> reads \<^verbatim>\<open>command.study_id\<close> and
  \<^verbatim>\<open>command.form\<close> and calls \<^verbatim>\<open>command.test()\<close>; the outcome of the test stays in the
  object (as \<^verbatim>\<open>lock_command.success\<close> shows for the locking command).
\<close>

record command =
  study_id :: string
  form :: string
  success :: bool
  detail :: string

text \<open>
  \<^verbatim>\<open>ExecRedcapLockingData(verbose, study_id, form, lock=...)\<close>: the command that locks
  (\<^verbatim>\<open>lock=True\<close>) or unlocks (\<^verbatim>\<open>lock=False\<close>) one form of one subject.
\<close>

record locking_data =
  lk_verbose :: bool
  lk_study_id :: string
  lk_form :: string
  lk_lock :: bool
  lk_success :: bool
  lk_detail :: string

definition ExecRedcapLockingData :: "bool \<Rightarrow> string \<Rightarrow> string \<Rightarrow> bool \<Rightarrow> locking_data" where
  "ExecRedcapLockingData verbose sid frm lock =
     \<lparr>lk_verbose = verbose, lk_study_id = sid, lk_form = frm, lk_lock = lock,
      lk_success = False, lk_detail = []\<rparr>"

text \<open>A scraped ticket: its number, the commands it holds and its \<^verbatim>\<open>resolved\<close> flag.\<close>

record scraped_issue =
  number :: nat
  body :: string
  commands :: "command list"
  resolved :: bool

subsection \<open>Effects\<close>

text \<open>
  Everything the script does to the outside is appended to a trace, in the order in which
  it happens: a test of a locking command or of a ticket's command (with the object as it
  is after the test), a line printed by \<^verbatim>\<open>run_batch\<close> itself, a comment posted on a
  ticket, a ticket closed.
\<close>

datatype event =
    LockTest locking_data
  | CommandTest command
  | Print string
  | Comment nat string
  | Close nat

datatype exn =
    AttributeError string string
  | TypeError string
  | TicketUpdateFailure nat

datatype 'a outcome = Returned 'a | Raised exn

record 'w state =
  world :: 'w
  trace :: "event list"

type_synonym metadata = "(string \<times> string) list"

record 'w externals =
  redcap_locking :: "bool \<Rightarrow> string \<Rightarrow> string \<Rightarrow> 'w \<Rightarrow> (bool \<times> string) \<times> 'w"
  rerun :: "command \<Rightarrow> 'w \<Rightarrow> (bool \<times> string) \<times> 'w"
  stringify_result :: "locking_data \<Rightarrow> string"
  stringify :: "scraped_issue \<Rightarrow> string"
  comment_text :: "scraped_issue \<Rightarrow> string"
  tracker_write :: "event \<Rightarrow> 'w \<Rightarrow> 'w option"
  get_class_for_label :: "string \<Rightarrow> string"
  scrape_matching_issues ::
    "metadata \<Rightarrow> bool \<Rightarrow> string \<Rightarrow> string \<Rightarrow> nat list option \<Rightarrow> string \<Rightarrow> 'w
      \<Rightarrow> scraped_issue list"
  verify_scraped_issues :: "scraped_issue list \<Rightarrow> bool"

definition print :: "string \<Rightarrow> 'w state \<Rightarrow> 'w state" where
  "print line s = s\<lparr>trace := trace s @ [Print line]\<rparr>"

definition nl :: char where
  "nl = CHR 0x0A"

subsection \<open>The three phases of one command\<close>

text \<open>
  Modelled from the spec: \<^verbatim>\<open>ExecRedcapLockingData.test\<close> and \<^verbatim>\<open>Command.test\<close> (module
  \<^verbatim>\<open>commands\<close>) are missing. By the spec each phase's outcome is captured as data
  (a success flag and a diagnostic text) and never thrown: the test asks the record
  store, keeps the answer in the object and returns.
\<close>

definition test_locking ::
  "'w externals \<Rightarrow> locking_data \<Rightarrow> 'w state \<Rightarrow> locking_data \<times> 'w state" where
  "test_locking ext lc s =
     (case redcap_locking ext (lk_lock lc) (lk_study_id lc) (lk_form lc) (world s) of
        ((ok, text), w') \<Rightarrow>
          (let lc' = lc\<lparr>lk_success := ok, lk_detail := text\<rparr>
           in (lc', s\<lparr>world := w', trace := trace s @ [LockTest lc']\<rparr>)))"

definition test_command ::
  "'w externals \<Rightarrow> command \<Rightarrow> 'w state \<Rightarrow> command \<times> 'w state" where
  "test_command ext c s =
     (case rerun ext c (world s) of
        ((ok, text), w') \<Rightarrow>
          (let c' = c\<lparr>success := ok, detail := text\<rparr>
           in (c', s\<lparr>world := w', trace := trace s @ [CommandTest c']\<rparr>)))"

definition relock_report :: "'w externals \<Rightarrow> locking_data \<Rightarrow> string" where
  "relock_report ext lc = ''Errors relocking:'' @ [nl] @ stringify_result ext lc"

text \<open>The body of the loop \<^verbatim>\<open>for command in scraped_issue.get_commands()\<close>.\<close>

definition run_command ::
  "'w externals \<Rightarrow> bool \<Rightarrow> command \<Rightarrow> 'w state \<Rightarrow> command \<times> 'w state" where
  "run_command ext verbose c s0 =
     (let unlock_command = ExecRedcapLockingData verbose (study_id c) (form c) False;
          lock_command = ExecRedcapLockingData verbose (study_id c) (form c) True
      in case test_locking ext unlock_command s0 of
        (unlock_command', s1) \<Rightarrow>
          (case test_command ext c s1 of
             (c', s2) \<Rightarrow>
               (case test_locking ext lock_command s2 of
                  (lock_command', s3) \<Rightarrow>
                    (if \<not> lk_success lock_command'
                     then (c', print (relock_report ext lock_command') s3)
                     else (c', s3)))))"

fun run_commands ::
  "'w externals \<Rightarrow> bool \<Rightarrow> command list \<Rightarrow> 'w state \<Rightarrow> command list \<times> 'w state" where
  "run_commands ext verbose [] s = ([], s)"
| "run_commands ext verbose (c # cs) s =
     (case run_command ext verbose c s of
        (c', s') \<Rightarrow>
          (case run_commands ext verbose cs s' of
             (cs', s'') \<Rightarrow> (c' # cs', s'')))"

subsection \<open>One ticket\<close>

text \<open>
  The tests that a trace records, and whether a recorded test succeeded.
\<close>

fun test_of :: "event \<Rightarrow> event list" where
  "test_of (LockTest lc) = [LockTest lc]"
| "test_of (CommandTest c) = [CommandTest c]"
| "test_of _ = []"

definition tests :: "event list \<Rightarrow> event list" where
  "tests tr = concat (map test_of tr)"

fun phase_ok :: "event \<Rightarrow> bool" where
  "phase_ok (LockTest lc) = lk_success lc"
| "phase_ok (CommandTest c) = success c"
| "phase_ok _ = True"

text \<open>
  The tests of a ticket's commands, once the loop over them is through: the last three
  recorded tests for each command the ticket holds.
\<close>

definition ticket_tests :: "event list \<Rightarrow> scraped_issue \<Rightarrow> event list" where
  "ticket_tests tr iss =
     (let ts = tests tr in drop (length ts - 3 * length (commands iss)) ts)"

text \<open>
  Modelled from the spec: \<^verbatim>\<open>ScrapedIssue.update\<close> (module \<^verbatim>\<open>batch_script_utils\<close>) is
  missing. By the spec a ticket is marked resolved iff every command it held produced
  three successful results (unlock, command and relock all succeeded); the update posts
  a comment containing the accumulated result text and closes the ticket iff it is
  resolved; and a write to the tracker may fail (TicketUpdateFailure), which in Python is
  an exception. \<^verbatim>\<open>run_batch\<close> keeps the unlock and the relock command in local objects and
  calls \<^verbatim>\<open>scraped_issue.update()\<close> with no argument, so \<open>update\<close> reads the three results
  of each command where the tests left them, in the record of the tests. The flag is set
  before the tracker is written to; the ticket object is returned as \<open>update\<close> leaves it,
  also when a write fails.
\<close>

definition tracker_call ::
  "'w externals \<Rightarrow> nat \<Rightarrow> event \<Rightarrow> 'w state \<Rightarrow> unit outcome \<times> 'w state" where
  "tracker_call ext n ev s =
     (case tracker_write ext ev (world s) of
        None \<Rightarrow> (Raised (TicketUpdateFailure n), s)
      | Some w' \<Rightarrow> (Returned (), s\<lparr>world := w', trace := trace s @ [ev]\<rparr>))"

definition update ::
  "'w externals \<Rightarrow> scraped_issue \<Rightarrow> 'w state
    \<Rightarrow> (unit outcome \<times> scraped_issue) \<times> 'w state" where
  "update ext iss s =
     (let iss' = iss\<lparr>resolved := list_all phase_ok (ticket_tests (trace s) iss)\<rparr>
      in case tracker_call ext (number iss') (Comment (number iss') (comment_text ext iss')) s of
        (Raised e, s') \<Rightarrow> ((Raised e, iss'), s')
      | (Returned _, s') \<Rightarrow>
          (if resolved iss'
           then (case tracker_call ext (number iss') (Close (number iss')) s' of
                   (Raised e, s'') \<Rightarrow> ((Raised e, iss'), s'')
                 | (Returned _, s'') \<Rightarrow> ((Returned (), iss'), s''))
           else ((Returned (), iss'), s')))"

text \<open>Python's \<^verbatim>\<open>str\<close> of a ticket number, for \<^verbatim>\<open>f"#{scraped_issue.number}"\<close>.\<close>

fun str_nat :: "nat \<Rightarrow> string" where
  "str_nat n =
     (if n < 10 then [''0123456789'' ! n]
      else str_nat (n div 10) @ [''0123456789'' ! (n mod 10)])"

declare str_nat.simps [simp del]

definition issue_tag :: "scraped_issue \<Rightarrow> string" where
  "issue_tag iss = ''#'' @ str_nat (number iss)"

text \<open>
  The body of the loop \<^verbatim>\<open>for scraped_issue in scraped_issues\<close>, in two steps. First
  the work on the ticket (lines 41 to 58): the lines printed with \<^verbatim>\<open>verbose\<close>, the loop
  over the ticket's commands, the call of \<^verbatim>\<open>update\<close>.
\<close>

definition work_on_ticket ::
  "'w externals \<Rightarrow> bool \<Rightarrow> scraped_issue \<Rightarrow> 'w state
    \<Rightarrow> (unit outcome \<times> scraped_issue) \<times> 'w state" where
  "work_on_ticket ext verbose iss s =
     (let s1 = (if verbose then print (stringify ext iss) (print (replicate 20 nl) s) else s)
      in case run_commands ext verbose (commands iss) s1 of
        (cs', s2) \<Rightarrow> update ext (iss\<lparr>commands := cs'\<rparr>) s2)"

text \<open>
  Then the ticket is recorded (lines 59 to 62). The two lists are the locals
  \<^verbatim>\<open>closed_issues\<close> and \<^verbatim>\<open>commented_issues\<close>; the ticket object is returned as the loop
  leaves it. Nothing in \<^verbatim>\<open>run_batch\<close> catches an exception, so one raised by
  \<^verbatim>\<open>update\<close> leaves the loop before the ticket is recorded.
\<close>

definition process_issue ::
  "'w externals \<Rightarrow> bool \<Rightarrow> scraped_issue \<Rightarrow> string list \<times> string list \<Rightarrow> 'w state
    \<Rightarrow> (scraped_issue \<times> string list \<times> string list) outcome \<times> 'w state" where
  "process_issue ext verbose iss acc s =
     (case work_on_ticket ext verbose iss s of
        ((Raised e, iss'), s3) \<Rightarrow> (Raised e, s3)
      | ((Returned _, iss'), s3) \<Rightarrow>
          (if resolved iss'
           then (Returned (iss', fst acc @ [issue_tag iss'], snd acc), s3)
           else (Returned (iss', fst acc, snd acc @ [issue_tag iss']), s3)))"

fun process_issues ::
  "'w externals \<Rightarrow> bool \<Rightarrow> scraped_issue list \<Rightarrow> string list \<times> string list \<Rightarrow> 'w state
    \<Rightarrow> (scraped_issue list \<times> string list \<times> string list) outcome \<times> 'w state" where
  "process_issues ext verbose [] acc s = (Returned ([], acc), s)"
| "process_issues ext verbose (iss # rest) acc s =
     (case process_issue ext verbose iss acc s of
        (Raised e, s') \<Rightarrow> (Raised e, s')
      | (Returned (iss', acc'), s') \<Rightarrow>
          (case process_issues ext verbose rest acc' s' of
             (Raised e, s'') \<Rightarrow> (Raised e, s'')
           | (Returned (rest', acc''), s'') \<Rightarrow> (Returned (iss' # rest', acc''), s'')))"

subsection \<open>The batch\<close>

text \<open>Python's \<^verbatim>\<open>sep.join(xs)\<close>.\<close>

fun join :: "string \<Rightarrow> string list \<Rightarrow> string" where
  "join sep [] = []"
| "join sep [x] = x"
| "join sep (x # y # ys) = x @ sep @ join sep (y # ys)"

definition closed_summary :: "string list \<Rightarrow> string" where
  "closed_summary closed_issues = [nl, nl] @ ''Closed:'' @ [nl] @ join '', '' closed_issues"

definition commented_summary :: "string list \<Rightarrow> string" where
  "commented_summary commented_issues = ''Commented:'' @ [nl] @ join '', '' commented_issues"

text \<open>
  \<^verbatim>\<open>run_batch(label, issue_numbers, metadata, verbose)\<close>. The scraper reads the tracker
  (the world) and returns the tickets; the global logger it is handed is left out.
\<close>

definition run_batch ::
  "'w externals \<Rightarrow> string \<Rightarrow> nat list option \<Rightarrow> metadata \<Rightarrow> bool \<Rightarrow> 'w state
    \<Rightarrow> unit outcome \<times> 'w state" where
  "run_batch ext label issue_numbers metadata verbose s =
     (let title_string = ''redcap_import_record:Failed to import into REDCap'';
          issue_class = get_class_for_label ext label;
          scraped_issues =
            scrape_matching_issues ext metadata verbose title_string label issue_numbers
              issue_class (world s)
      in if \<not> verify_scraped_issues ext scraped_issues
         then (Returned (), print ''Aborting...'' s)
         else (case process_issues ext verbose scraped_issues ([], []) s of
                 (Raised e, s') \<Rightarrow> (Raised e, s')
               | (Returned (issues', closed_issues, commented_issues), s') \<Rightarrow>
                   (if verbose
                    then (Returned (),
                          print (commented_summary commented_issues)
                            (print (closed_summary closed_issues) s'))
                    else (Returned (), s'))))"

subsection \<open>main\<close>

text \<open>
  The rows \<^verbatim>\<open>(form_name, field_name)\<close> of the metadata table.
  \<^verbatim>\<open>Series.unique()\<close> keeps the distinct values in the order of their first appearance.
\<close>

fun unique :: "'a list \<Rightarrow> 'a list" where
  "unique [] = []"
| "unique (x # xs) = x # unique (filter (\<lambda>y. y \<noteq> x) xs)"

definition complete_fields :: "metadata \<Rightarrow> metadata" where
  "complete_fields metadata =
     (let forms = unique (map fst metadata)
      in map (\<lambda>form. (form, form @ ''_complete'')) forms)"

definition add_complete_fields :: "metadata \<Rightarrow> metadata" where
  "add_complete_fields metadata = metadata @ complete_fields metadata"

text \<open>
  An exception object as \<^verbatim>\<open>main\<close> uses it: its class, and its \<^verbatim>\<open>message\<close> attribute when it
  has one (the built-in exceptions of Python 3 have none).
\<close>

record py_exception =
  exc_class :: string
  exc_message :: "string option"

record args =
  arg_labels :: "string list option"
  arg_issue_numbers :: "nat list option"
  arg_verbose :: bool

fun run_labels ::
  "'w externals \<Rightarrow> string list \<Rightarrow> nat list option \<Rightarrow> metadata \<Rightarrow> bool \<Rightarrow> 'w state
    \<Rightarrow> unit outcome \<times> 'w state" where
  "run_labels ext [] issue_nums metadata verb s = (Returned (), s)"
| "run_labels ext (label # rest) issue_nums metadata verb s =
     (case run_batch ext label issue_nums metadata verb s of
        (Raised e, s') \<Rightarrow> (Raised e, s')
      | (Returned _, s') \<Rightarrow> run_labels ext rest issue_nums metadata verb s')"

text \<open>
  \<^verbatim>\<open>main\<close>, from the connection on. \<open>connect_server\<close> is what
  \<^verbatim>\<open>session.connect_server("data_entry")\<close> does: it raises, or returns a connection or
  \<^verbatim>\<open>None\<close>. \<open>export_metadata\<close> gives the rows of \<^verbatim>\<open>export_metadata(format="df")\<close>.
\<close>

definition connect ::
  "(py_exception + 'a option) \<Rightarrow> 'w state \<Rightarrow> 'a option outcome \<times> 'w state" where
  "connect connect_server s =
     (case connect_server of
        Inr api \<Rightarrow> (Returned api, s)
      | Inl e \<Rightarrow>
          (case exc_message e of
             None \<Rightarrow> (Raised (AttributeError (exc_class e) ''message''), s)
           | Some m \<Rightarrow> (Returned None, print m s)))"

definition main ::
  "'w externals \<Rightarrow> (py_exception + 'a option) \<Rightarrow> ('a \<Rightarrow> metadata) \<Rightarrow> args \<Rightarrow> 'w state
    \<Rightarrow> unit outcome \<times> 'w state" where
  "main ext connect_server export_metadata a s =
     (case connect connect_server s of
        (Raised e, s') \<Rightarrow> (Raised e, s')
      | (Returned redcap_api, s') \<Rightarrow>
          (case redcap_api of
             None \<Rightarrow> (Raised (AttributeError ''NoneType'' ''export_metadata''), s')
           | Some api \<Rightarrow>
               (let metadata = add_complete_fields (export_metadata api)
                in case arg_labels a of
                  None \<Rightarrow> (Raised (TypeError ''NoneType object is not iterable''), s')
                | Some ls \<Rightarrow> run_labels ext ls (arg_issue_numbers a) metadata (arg_verbose a) s')))"

subsection \<open>A concrete record store and tracker\<close>

text \<open>
  A small world to run the script on: the tickets the tracker holds, the
  \<open>(study_id, form)\<close> pairs whose relock the record store refuses, the tickets on
  which the tracker refuses a comment and those it refuses to close. Every unlock and
  every command succeeds.
\<close>

record sim_world =
  sim_tickets :: "scraped_issue list"
  sim_bad_relock :: "(string \<times> string) list"
  sim_bad_ticket :: "nat list"
  sim_bad_close :: "nat list"

definition sim_locking ::
  "bool \<Rightarrow> string \<Rightarrow> string \<Rightarrow> sim_world \<Rightarrow> (bool \<times> string) \<times> sim_world" where
  "sim_locking lock sid frm w =
     (if lock \<and> (sid, frm) \<in> set (sim_bad_relock w)
      then ((False, ''record is busy''), w)
      else ((True, ''done''), w))"

definition sim_write :: "event \<Rightarrow> sim_world \<Rightarrow> sim_world option" where
  "sim_write ev w =
     (case ev of
        Comment n text \<Rightarrow> (if n \<in> set (sim_bad_ticket w) then None else Some w)
      | Close n \<Rightarrow> (if n \<in> set (sim_bad_close w) then None else Some w)
      | _ \<Rightarrow> Some w)"

definition sim_targets :: "scraped_issue list \<Rightarrow> (string \<times> string) list" where
  "sim_targets issues = concat (map (\<lambda>iss. map (\<lambda>c. (study_id c, form c)) (commands iss)) issues)"

definition sim_ext :: "sim_world externals" where
  "sim_ext =
     \<lparr>redcap_locking = sim_locking,
      rerun = (\<lambda>c w. ((True, ''imported''), w)),
      stringify_result = lk_detail,
      stringify = body,
      comment_text = (\<lambda>iss. concat (map detail (commands iss))),
      tracker_write = sim_write,
      get_class_for_label = (\<lambda>label. label),
      scrape_matching_issues = (\<lambda>metadata verbose title label nums cls w. sim_tickets w),
      verify_scraped_issues = (\<lambda>issues. distinct (sim_targets issues))\<rparr>"

definition new_command :: "string \<Rightarrow> string \<Rightarrow> command" where
  "new_command sid frm = \<lparr>study_id = sid, form = frm, success = False, detail = []\<rparr>"

definition ticket_100 :: scraped_issue where
  "ticket_100 =
     \<lparr>number = 100, body = ''subject=S001 form=demographics'',
      commands = [new_command ''S001'' ''demographics''], resolved = False\<rparr>"

definition ticket_101 :: scraped_issue where
  "ticket_101 =
     \<lparr>number = 101, body = ''subject=S002 form=clinical subject=S002 form=demographics'',
      commands = [new_command ''S002'' ''clinical'', new_command ''S002'' ''demographics''],
      resolved = False\<rparr>"

definition start :: "sim_world \<Rightarrow> sim_world state" where
  "start w = \<lparr>world = w, trace = []\<rparr>"

text \<open>All three phases succeed everywhere.\<close>

definition world_ok :: sim_world where
  "world_ok =
     \<lparr>sim_tickets = [ticket_100, ticket_101], sim_bad_relock = [], sim_bad_ticket = [],
      sim_bad_close = []\<rparr>"

text \<open>The relock of \<open>(S001, demographics)\<close> fails; everything else succeeds.\<close>

definition world_relock_fails :: sim_world where
  "world_relock_fails =
     \<lparr>sim_tickets = [ticket_100, ticket_101], sim_bad_relock = [(''S001'', ''demographics'')],
      sim_bad_ticket = [], sim_bad_close = []\<rparr>"

text \<open>The tracker refuses the comment on ticket 100.\<close>

definition world_tracker_fails :: sim_world where
  "world_tracker_fails =
     \<lparr>sim_tickets = [ticket_100, ticket_101], sim_bad_relock = [], sim_bad_ticket = [100],
      sim_bad_close = []\<rparr>"

text \<open>The tracker takes the comment on ticket 100 and refuses to close it.\<close>

definition world_close_fails :: sim_world where
  "world_close_fails =
     \<lparr>sim_tickets = [ticket_100, ticket_101], sim_bad_relock = [], sim_bad_ticket = [],
      sim_bad_close = [100]\<rparr>"

text \<open>Two tickets aim at the same form of the same subject: verification fails.\<close>

definition world_conflict :: sim_world where
  "world_conflict =
     \<lparr>sim_tickets = [ticket_100, ticket_100\<lparr>number := 102\<rparr>], sim_bad_relock = [],
      sim_bad_ticket = [], sim_bad_close = []\<rparr>"

subsection \<open>Reading the trace\<close>

datatype phase = Unlock | Rerun | Relock

fun phase_of :: "event \<Rightarrow> (phase \<times> string \<times> string) list" where
  "phase_of (LockTest lc) =
     [(if lk_lock lc then Relock else Unlock, lk_study_id lc, lk_form lc)]"
| "phase_of (CommandTest c) = [(Rerun, study_id c, form c)]"
| "phase_of _ = []"

definition phases :: "event list \<Rightarrow> (phase \<times> string \<times> string) list" where
  "phases tr = concat (map phase_of tr)"

fun printed_of :: "event \<Rightarrow> string list" where
  "printed_of (Print line) = [line]"
| "printed_of _ = []"

definition printed :: "event list \<Rightarrow> string list" where
  "printed tr = concat (map printed_of tr)"

fun failed_relock_of :: "event \<Rightarrow> locking_data list" where
  "failed_relock_of (LockTest lc) = (if lk_lock lc \<and> \<not> lk_success lc then [lc] else [])"
| "failed_relock_of _ = []"

definition failed_relocks :: "event list \<Rightarrow> locking_data list" where
  "failed_relocks tr = concat (map failed_relock_of tr)"

definition three_phases :: "command \<Rightarrow> (phase \<times> string \<times> string) list" where
  "three_phases c =
     [(Unlock, study_id c, form c), (Rerun, study_id c, form c), (Relock, study_id c, form c)]"

fun comment_of :: "event \<Rightarrow> nat list" where
  "comment_of (Comment n text) = [n]"
| "comment_of _ = []"

definition comments :: "event list \<Rightarrow> nat list" where
  "comments tr = concat (map comment_of tr)"

fun close_of :: "event \<Rightarrow> nat list" where
  "close_of (Close n) = [n]"
| "close_of _ = []"

definition closes :: "event list \<Rightarrow> nat list" where
  "closes tr = concat (map close_of tr)"


text \<open>
  The \<^verbatim>\<open>resolved\<close> flag of the ticket object once the work on the ticket is over,
  whether \<^verbatim>\<open>update\<close> returned or raised.
\<close>

definition resolved_after :: "'w externals \<Rightarrow> bool \<Rightarrow> scraped_issue \<Rightarrow> 'w state \<Rightarrow> bool" where
  "resolved_after ext verbose iss s = resolved (snd (fst (work_on_ticket ext verbose iss s)))"

subsection \<open>Helper lemmas\<close>

lemma phases_append: "phases (xs @ ys) = phases xs @ phases ys"
  by (simp add: phases_def)

lemma printed_append: "printed (xs @ ys) = printed xs @ printed ys"
  by (simp add: printed_def)

lemma failed_relocks_append: "failed_relocks (xs @ ys) = failed_relocks xs @ failed_relocks ys"
  by (simp add: failed_relocks_def)

lemma test_locking_effect:
  assumes "test_locking ext lc s = (lc', s')"
  shows "trace s' = trace s @ [LockTest lc']"
    and "lc' = lc\<lparr>lk_success := lk_success lc', lk_detail := lk_detail lc'\<rparr>"
  using assms by (auto simp: test_locking_def Let_def split: prod.splits)

lemma test_command_effect:
  assumes "test_command ext c s = (c', s')"
  shows "trace s' = trace s @ [CommandTest c']"
    and "c' = c\<lparr>success := success c', detail := detail c'\<rparr>"
  using assms by (auto simp: test_command_def Let_def split: prod.splits)

lemma run_command_trace:
  "\<exists>u c' l. trace (snd (run_command ext verbose c s)) =
       trace s @ [LockTest u, CommandTest c', LockTest l]
         @ (if lk_success l then [] else [Print (relock_report ext l)])
     \<and> fst (run_command ext verbose c s) = c'
     \<and> u = (ExecRedcapLockingData verbose (study_id c) (form c) False)
           \<lparr>lk_success := lk_success u, lk_detail := lk_detail u\<rparr>
     \<and> l = (ExecRedcapLockingData verbose (study_id c) (form c) True)
           \<lparr>lk_success := lk_success l, lk_detail := lk_detail l\<rparr>
     \<and> c' = c\<lparr>success := success c', detail := detail c'\<rparr>"
proof -
  obtain u s1 where 1:
    "test_locking ext (ExecRedcapLockingData verbose (study_id c) (form c) False) s = (u, s1)"
    by fastforce
  obtain c' s2 where 2: "test_command ext c s1 = (c', s2)"
    by fastforce
  obtain l s3 where 3:
    "test_locking ext (ExecRedcapLockingData verbose (study_id c) (form c) True) s2 = (l, s3)"
    by fastforce
  have run: "run_command ext verbose c s =
      (c', if lk_success l then s3 else print (relock_report ext l) s3)"
    by (simp add: run_command_def Let_def 1 2 3)
  have "trace s3 = trace s @ [LockTest u, CommandTest c', LockTest l]"
    using test_locking_effect(1)[OF 1] test_command_effect(1)[OF 2]
      test_locking_effect(1)[OF 3] by simp
  then have "trace (snd (run_command ext verbose c s)) =
       trace s @ [LockTest u, CommandTest c', LockTest l]
         @ (if lk_success l then [] else [Print (relock_report ext l)])"
    by (simp add: run print_def)
  moreover have "fst (run_command ext verbose c s) = c'"
    by (simp add: run)
  ultimately show ?thesis
    using test_locking_effect(2)[OF 1] test_command_effect(2)[OF 2]
      test_locking_effect(2)[OF 3] by blast
qed

subsection \<open>The phases of a command (C2, C9, C7)\<close>

lemma run_commands_phases:
  "phases (trace (snd (run_commands ext verbose cs s))) =
     phases (trace s) @ concat (map three_phases cs)"
proof (induction cs arbitrary: s)
  case Nil
  show ?case by simp
next
  case (Cons c cs)
  obtain c' s' where 1: "run_command ext verbose c s = (c', s')"
    by fastforce
  obtain cs' s'' where 2: "run_commands ext verbose cs s' = (cs', s'')"
    by fastforce
  obtain u d l where tr: "trace s' = trace s @ [LockTest u, CommandTest d, LockTest l]
         @ (if lk_success l then [] else [Print (relock_report ext l)])"
    and u: "u = (ExecRedcapLockingData verbose (study_id c) (form c) False)
           \<lparr>lk_success := lk_success u, lk_detail := lk_detail u\<rparr>"
    and l: "l = (ExecRedcapLockingData verbose (study_id c) (form c) True)
           \<lparr>lk_success := lk_success l, lk_detail := lk_detail l\<rparr>"
    and d: "d = c\<lparr>success := success d, detail := detail d\<rparr>"
    using run_command_trace[of ext verbose c s] 1 by auto
  have tu: "lk_study_id u = study_id c \<and> lk_form u = form c \<and> \<not> lk_lock u"
    by (subst u, subst (2) u, subst (3) u) (simp add: ExecRedcapLockingData_def)
  have tl: "lk_study_id l = study_id c \<and> lk_form l = form c \<and> lk_lock l"
    by (subst l, subst (2) l, subst (3) l) (simp add: ExecRedcapLockingData_def)
  have td: "study_id d = study_id c \<and> form d = form c"
    by (subst d, subst (2) d) simp
  have "phases (trace s') = phases (trace s) @ three_phases c"
    by (simp add: tr phases_def three_phases_def tu tl td)
  moreover have "phases (trace s'') = phases (trace s') @ concat (map three_phases cs)"
    using Cons.IH[of s'] 2 by simp
  ultimately show ?case
    by (simp add: 1 2)
qed

text \<open>
  C2. For every command executed by \<^verbatim>\<open>run_batch\<close> the relock is attempted exactly once,
  after the unlock and the command phase, whatever their outcome, and the three phases of
  one command are over before those of the next begin: whatever the record store answers,
  the phases that the loop over a ticket's commands adds to the trace are, command by
  command and in the ticket's order, unlock, command, relock. So there are as many
  relocks as commands, and the phase at position \<open>3 * i + 2\<close> is the relock of command
  \<open>i\<close>.
\<close>

theorem relock_once_per_command:
  "phases (trace (snd (run_commands ext verbose cs s))) =
     phases (trace s) @
       concat (map (\<lambda>c. [(Unlock, study_id c, form c), (Rerun, study_id c, form c),
                          (Relock, study_id c, form c)]) cs)
   \<and> length (filter (\<lambda>p. fst p = Relock) (phases (trace (snd (run_commands ext verbose cs s)))))
       = length (filter (\<lambda>p. fst p = Relock) (phases (trace s))) + length cs"
proof -
  have seq: "phases (trace (snd (run_commands ext verbose cs s))) =
     phases (trace s) @ concat (map three_phases cs)"
    by (rule run_commands_phases)
  have cnt: "length (filter (\<lambda>p. fst p = Relock) (concat (map three_phases cs))) = length cs"
    by (induction cs) (simp_all add: three_phases_def)
  have "(\<lambda>c. [(Unlock, study_id c, form c), (Rerun, study_id c, form c),
              (Relock, study_id c, form c)]) = three_phases"
    by (rule ext) (simp add: three_phases_def)
  then show ?thesis
    using seq cnt by simp
qed

text \<open>
  C9. For every executed command the unlock and the relock operation are built with the
  command's own \<^verbatim>\<open>study_id\<close> and \<^verbatim>\<open>form\<close> and differ only in the lock flag
  (\<^verbatim>\<open>lock=False\<close> for the unlock, \<^verbatim>\<open>lock=True\<close> for the relock): the loop body tests an
  unlock object, the command and a relock object, all three on the command's pair, and
  the relock object with its flag cleared is the unlock object, the results of the two
  tests apart.
\<close>

theorem lock_phases_target_the_command:
  "\<exists>u c' l rest.
     trace (snd (run_command ext verbose c s)) =
       trace s @ LockTest u # CommandTest c' # LockTest l # rest
     \<and> lk_study_id u = study_id c \<and> lk_form u = form c \<and> \<not> lk_lock u
     \<and> lk_study_id l = study_id c \<and> lk_form l = form c \<and> lk_lock l
     \<and> study_id c' = study_id c \<and> form c' = form c
     \<and> l\<lparr>lk_lock := False, lk_success := lk_success u, lk_detail := lk_detail u\<rparr> = u"
proof -
  obtain u d l where tr: "trace (snd (run_command ext verbose c s)) =
       trace s @ [LockTest u, CommandTest d, LockTest l]
         @ (if lk_success l then [] else [Print (relock_report ext l)])"
    and u: "u = (ExecRedcapLockingData verbose (study_id c) (form c) False)
           \<lparr>lk_success := lk_success u, lk_detail := lk_detail u\<rparr>"
    and l: "l = (ExecRedcapLockingData verbose (study_id c) (form c) True)
           \<lparr>lk_success := lk_success l, lk_detail := lk_detail l\<rparr>"
    and d: "d = c\<lparr>success := success d, detail := detail d\<rparr>"
    using run_command_trace[of ext verbose c s] by auto
  have tu: "lk_study_id u = study_id c \<and> lk_form u = form c \<and> \<not> lk_lock u"
    by (subst u, subst (2) u, subst (3) u) (simp add: ExecRedcapLockingData_def)
  have tl: "lk_study_id l = study_id c \<and> lk_form l = form c \<and> lk_lock l"
    by (subst l, subst (2) l, subst (3) l) (simp add: ExecRedcapLockingData_def)
  have td: "study_id d = study_id c \<and> form d = form c"
    by (subst d, subst (2) d) simp
  have "lk_verbose u = lk_verbose l"
    by (subst u, subst l) (simp add: ExecRedcapLockingData_def)
  then have same: "l\<lparr>lk_lock := False, lk_success := lk_success u, lk_detail := lk_detail u\<rparr> = u"
    using tu tl by simp
  from tr have "trace (snd (run_command ext verbose c s)) =
       trace s @ LockTest u # CommandTest d # LockTest l
         # (if lk_success l then [] else [Print (relock_report ext l)])"
    by simp
  with tu tl td same show ?thesis
    by blast
qed

lemma run_command_reports:
  "\<exists>new. trace (snd (run_command ext verbose c s)) = trace s @ new
     \<and> printed new = map (relock_report ext) (failed_relocks new)"
proof -
  obtain u d l where tr: "trace (snd (run_command ext verbose c s)) =
       trace s @ [LockTest u, CommandTest d, LockTest l]
         @ (if lk_success l then [] else [Print (relock_report ext l)])"
    and u: "u = (ExecRedcapLockingData verbose (study_id c) (form c) False)
           \<lparr>lk_success := lk_success u, lk_detail := lk_detail u\<rparr>"
    and l: "l = (ExecRedcapLockingData verbose (study_id c) (form c) True)
           \<lparr>lk_success := lk_success l, lk_detail := lk_detail l\<rparr>"
    using run_command_trace[of ext verbose c s] by auto
  have tu: "\<not> lk_lock u"
    by (subst u) (simp add: ExecRedcapLockingData_def)
  have tl: "lk_lock l"
    by (subst l) (simp add: ExecRedcapLockingData_def)
  let ?new = "[LockTest u, CommandTest d, LockTest l]
         @ (if lk_success l then [] else [Print (relock_report ext l)])"
  have "printed ?new = map (relock_report ext) (failed_relocks ?new)"
    by (simp add: printed_def failed_relocks_def tu tl)
  with tr show ?thesis
    by blast
qed

lemma run_commands_reports:
  "\<exists>new. trace (snd (run_commands ext verbose cs s)) = trace s @ new
     \<and> printed new = map (relock_report ext) (failed_relocks new)
     \<and> comments new = [] \<and> closes new = []"
proof (induction cs arbitrary: s)
  case Nil
  show ?case by (simp add: printed_def failed_relocks_def comments_def closes_def)
next
  case (Cons c cs)
  obtain c' s' where 1: "run_command ext verbose c s = (c', s')"
    by fastforce
  obtain cs' s'' where 2: "run_commands ext verbose cs s' = (cs', s'')"
    by fastforce
  obtain u d l where tr: "trace s' = trace s @ [LockTest u, CommandTest d, LockTest l]
         @ (if lk_success l then [] else [Print (relock_report ext l)])"
    using run_command_trace[of ext verbose c s] 1 by auto
  obtain n1 where n1: "trace s' = trace s @ n1"
      "printed n1 = map (relock_report ext) (failed_relocks n1)"
    using run_command_reports[of ext verbose c s] 1 by auto
  have n1c: "comments n1 = [] \<and> closes n1 = []"
    using tr n1(1) by (auto simp: comments_def closes_def)
  obtain n2 where n2: "trace s'' = trace s' @ n2"
      "printed n2 = map (relock_report ext) (failed_relocks n2)"
      "comments n2 = []" "closes n2 = []"
    using Cons.IH[of s'] 2 by auto
  have "trace s'' = trace s @ (n1 @ n2)"
    using n1(1) n2(1) by simp
  moreover have "printed (n1 @ n2) = map (relock_report ext) (failed_relocks (n1 @ n2))"
    by (simp add: printed_append failed_relocks_append n1(2) n2(2))
  moreover have "comments (n1 @ n2) = [] \<and> closes (n1 @ n2) = []"
    using n1c n2(3,4) by (simp add: comments_def closes_def)
  ultimately show ?case
    using 1 2 by auto
qed

text \<open>
  C7. A failure of the relock phase is surfaced on its own: iff the relock operation
  reports failure, \<^verbatim>\<open>run_batch\<close> prints a report \<^verbatim>\<open>Errors relocking:\<close> followed by that
  operation's result text. The lines that the loop over a ticket's commands prints are
  exactly these reports, one for each failed relock of the trace and in the same order:
  a relock that succeeds, and an unlock or a command that fails, prints nothing.
\<close>

theorem relock_failure_is_reported:
  "\<exists>new. trace (snd (run_commands ext verbose cs s)) = trace s @ new
     \<and> printed new =
         map (\<lambda>l. ''Errors relocking:'' @ [nl] @ stringify_result ext l) (failed_relocks new)"
proof -
  have "relock_report ext = (\<lambda>l. ''Errors relocking:'' @ [nl] @ stringify_result ext l)"
    by (rule ext) (simp add: relock_report_def)
  then show ?thesis
    using run_commands_reports[of ext verbose cs s] by auto
qed

subsection \<open>Failed verification (C3)\<close>

text \<open>
  C3. If the verification of the scraped tickets fails, \<^verbatim>\<open>run_batch\<close> returns without
  touching the tracker: it prints \<^verbatim>\<open>Aborting...\<close> and nothing else happens, so no command
  is executed, no ticket is commented and no ticket is closed.
\<close>

theorem failed_verification_aborts:
  assumes "\<not> verify_scraped_issues ext
     (scrape_matching_issues ext metadata verbose
        ''redcap_import_record:Failed to import into REDCap'' label issue_numbers
        (get_class_for_label ext label) (world s))"
  shows "run_batch ext label issue_numbers metadata verbose s =
           (Returned (), s\<lparr>trace := trace s @ [Print ''Aborting...'']\<rparr>)
    \<and> phases (trace (snd (run_batch ext label issue_numbers metadata verbose s))) =
           phases (trace s)
    \<and> comments (trace (snd (run_batch ext label issue_numbers metadata verbose s))) =
           comments (trace s)
    \<and> closes (trace (snd (run_batch ext label issue_numbers metadata verbose s))) =
           closes (trace s)"
  using assms
  by (simp add: run_batch_def Let_def print_def phases_def comments_def closes_def)

theorem failed_verification_aborts_witness:
  "run_batch sim_ext ''update_visit_data'' None [] False (start world_conflict) =
     (Returned (), \<lparr>world = world_conflict, trace = [Print ''Aborting...'']\<rparr>)
   \<and> comments (trace (snd (run_batch sim_ext ''update_visit_data'' None [] False
        (start world_conflict)))) = []"
proof -
  have bad: "\<not> verify_scraped_issues sim_ext
     (scrape_matching_issues sim_ext [] False
        ''redcap_import_record:Failed to import into REDCap'' ''update_visit_data'' None
        (get_class_for_label sim_ext ''update_visit_data'') (world (start world_conflict)))"
    by (simp add: sim_ext_def start_def world_conflict_def sim_targets_def ticket_100_def
        new_command_def)
  show ?thesis
    using failed_verification_aborts[OF bad]
    by (simp add: start_def comments_def)
qed

subsection \<open>The work on one ticket\<close>

lemma comments_append: "comments (xs @ ys) = comments xs @ comments ys"
  by (simp add: comments_def)

lemma closes_append: "closes (xs @ ys) = closes xs @ closes ys"
  by (simp add: closes_def)

lemma tests_append: "tests (xs @ ys) = tests xs @ tests ys"
  by (simp add: tests_def)

lemma length_tests: "length (tests tr) = length (phases tr)"
proof (induction tr)
  case Nil
  show ?case by (simp add: tests_def phases_def)
next
  case (Cons e tr)
  then show ?case by (cases e) (simp_all add: tests_def phases_def)
qed


lemma length_three_phases: "length (concat (map three_phases cs)) = 3 * length cs"
  by (induction cs) (simp_all add: three_phases_def)

lemma run_commands_length: "length (fst (run_commands ext verbose cs s)) = length cs"
proof (induction cs arbitrary: s)
  case Nil
  show ?case by simp
next
  case (Cons c cs)
  obtain c' s' where 1: "run_command ext verbose c s = (c', s')"
    by fastforce
  obtain cs' s'' where 2: "run_commands ext verbose cs s' = (cs', s'')"
    by fastforce
  from Cons.IH[of s'] 2 have "length cs' = length cs"
    by simp
  then show ?case
    by (simp add: 1 2)
qed

lemma run_commands_events:
  "\<exists>new. trace (snd (run_commands ext verbose cs s)) = trace s @ new
     \<and> phases new = concat (map three_phases cs)
     \<and> printed new = map (relock_report ext) (failed_relocks new)
     \<and> comments new = [] \<and> closes new = []"
proof -
  obtain new where new: "trace (snd (run_commands ext verbose cs s)) = trace s @ new"
    "printed new = map (relock_report ext) (failed_relocks new)"
    "comments new = []" "closes new = []"
    using run_commands_reports[of ext verbose cs s] by auto
  have "phases (trace s) @ phases new = phases (trace s) @ concat (map three_phases cs)"
    using run_commands_phases[of ext verbose cs s] new(1) by (simp add: phases_append)
  then have "phases new = concat (map three_phases cs)"
    by simp
  with new show ?thesis
    by blast
qed

lemma tracker_call_returned:
  "tracker_call ext n ev s = (Returned u, s') \<Longrightarrow> trace s' = trace s @ [ev]"
  by (auto simp: tracker_call_def split: option.splits)

lemma tracker_call_raised:
  "tracker_call ext n ev s = (Raised e, s') \<Longrightarrow> s' = s \<and> e = TicketUpdateFailure n"
  by (auto simp: tracker_call_def split: option.splits)

lemma update_cases:
  fixes ext :: "'w externals" and iss :: scraped_issue and s :: "'w state"
  defines "i \<equiv> iss\<lparr>resolved := list_all phase_ok (ticket_tests (trace s) iss)\<rparr>"
  shows "(\<exists>e. update ext iss s = ((Raised e, i), s) \<and> e = TicketUpdateFailure (number iss))
     \<or> (\<exists>s'. update ext iss s = ((Returned (), i), s') \<and> \<not> resolved i
           \<and> trace s' = trace s @ [Comment (number iss) (comment_text ext i)])
     \<or> (\<exists>e s'. update ext iss s = ((Raised e, i), s') \<and> resolved i
           \<and> e = TicketUpdateFailure (number iss)
           \<and> trace s' = trace s @ [Comment (number iss) (comment_text ext i)])
     \<or> (\<exists>s'. update ext iss s = ((Returned (), i), s') \<and> resolved i
           \<and> trace s' = trace s @ [Comment (number iss) (comment_text ext i), Close (number iss)])"
proof -
  have n: "number i = number iss"
    by (simp add: i_def)
  have u: "update ext iss s =
     (case tracker_call ext (number iss) (Comment (number iss) (comment_text ext i)) s of
        (Raised e, s') \<Rightarrow> ((Raised e, i), s')
      | (Returned _, s') \<Rightarrow>
          (if resolved i
           then (case tracker_call ext (number iss) (Close (number iss)) s' of
                   (Raised e, s'') \<Rightarrow> ((Raised e, i), s'')
                 | (Returned _, s'') \<Rightarrow> ((Returned (), i), s''))
           else ((Returned (), i), s')))"
    unfolding update_def Let_def i_def[symmetric] n by (rule refl)
  obtain r1 s1 where 1:
    "tracker_call ext (number iss) (Comment (number iss) (comment_text ext i)) s = (r1, s1)"
    by fastforce
  obtain r2 s2 where 2: "tracker_call ext (number iss) (Close (number iss)) s1 = (r2, s2)"
    by fastforce
  show ?thesis
  proof (cases r1)
    case (Raised e)
    with 1 have "s1 = s \<and> e = TicketUpdateFailure (number iss)"
      using tracker_call_raised by blast
    then show ?thesis
      using u 1 Raised by simp
  next
    case (Returned x)
    with 1 have t1: "trace s1 = trace s @ [Comment (number iss) (comment_text ext i)]"
      using tracker_call_returned by blast
    show ?thesis
    proof (cases "resolved i")
      case False
      then show ?thesis
        using u 1 Returned t1 by simp
    next
      case True
      show ?thesis
      proof (cases r2)
        case (Raised e)
        with 2 have "s2 = s1 \<and> e = TicketUpdateFailure (number iss)"
          using tracker_call_raised by blast
        then show ?thesis
          using u 1 2 Returned Raised True t1 by simp
      next
        case Returned2: (Returned y)
        with 2 have "trace s2 = trace s1 @ [Close (number iss)]"
          using tracker_call_returned by blast
        then show ?thesis
          using u 1 2 Returned Returned2 True t1 by simp
      qed
    qed
  qed
qed

lemma update_returned:
  assumes "update ext iss s = ((Returned u, iss'), s')"
  shows "trace s' = trace s @ Comment (number iss) (comment_text ext iss')
           # (if resolved iss' then [Close (number iss)] else [])"
  using update_cases[of ext iss s] assms by auto

lemma update_raised:
  assumes "update ext iss s = ((Raised e, iss'), s')"
  shows "e = TicketUpdateFailure (number iss)
     \<and> (trace s' = trace s
        \<or> trace s' = trace s @ [Comment (number iss) (comment_text ext iss')])"
  using update_cases[of ext iss s] assms by auto

lemma update_ticket:
  "snd (fst (update ext iss s)) =
     iss\<lparr>resolved := list_all phase_ok (ticket_tests (trace s) iss)\<rparr>"
  using update_cases[of ext iss s] by auto

lemma ticket_tests_last:
  assumes "length ts = 3 * length (commands iss)"
    and "tests tr = before @ ts"
  shows "ticket_tests tr iss = ts"
proof -
  have "length (tests tr) - 3 * length (commands iss) = length before"
    using assms by simp
  then show ?thesis
    using assms(2) by (simp add: ticket_tests_def Let_def)
qed

lemma work_on_ticket_events:
  fixes ext :: "'w externals" and iss :: scraped_issue and s :: "'w state" and verbose :: bool
  defines "W \<equiv> work_on_ticket ext verbose iss s"
    and "P \<equiv> (if verbose then [Print (replicate 20 nl), Print (stringify ext iss)] else [])"
  shows "\<exists>n1 n2. trace (snd W) = trace s @ P @ n1 @ n2
     \<and> phases n1 = concat (map three_phases (commands iss))
     \<and> printed n1 = map (relock_report ext) (failed_relocks n1)
     \<and> comments n1 = [] \<and> closes n1 = []
     \<and> resolved (snd (fst W)) = list_all phase_ok (tests n1)
     \<and> number (snd (fst W)) = number iss
     \<and> tests n2 = [] \<and> phases n2 = [] \<and> printed n2 = [] \<and> failed_relocks n2 = []
     \<and> (case fst (fst W) of
          Returned u \<Rightarrow>
            n2 = Comment (number iss) (comment_text ext (snd (fst W)))
                   # (if resolved (snd (fst W)) then [Close (number iss)] else [])
        | Raised e \<Rightarrow>
            e = TicketUpdateFailure (number iss)
            \<and> (n2 = [] \<or> n2 = [Comment (number iss) (comment_text ext (snd (fst W)))]))"
proof -
  let ?s1 = "if verbose then print (stringify ext iss) (print (replicate 20 nl) s) else s"
  have t1: "trace ?s1 = trace s @ P"
    by (simp add: print_def P_def)
  have tp: "tests P = []"
    by (cases verbose) (simp_all add: P_def tests_def)
  obtain cs' s2 where rc: "run_commands ext verbose (commands iss) ?s1 = (cs', s2)"
    by fastforce
  let ?t = "iss\<lparr>commands := cs'\<rparr>"
  have w: "W = update ext ?t s2"
    by (simp add: W_def work_on_ticket_def Let_def rc)
  obtain n1 where n1: "trace s2 = trace ?s1 @ n1"
      "phases n1 = concat (map three_phases (commands iss))"
      "printed n1 = map (relock_report ext) (failed_relocks n1)"
      "comments n1 = []" "closes n1 = []"
    using run_commands_events[of ext verbose "commands iss" ?s1] rc by auto
  have len: "length cs' = length (commands iss)"
    using run_commands_length[of ext verbose "commands iss" ?s1] rc by simp
  have "length (tests n1) = 3 * length (commands iss)"
    by (simp add: length_tests n1(2) length_three_phases)
  then have l3: "length (tests n1) = 3 * length (commands ?t)"
    using len by simp
  have "tests (trace s2) = tests (trace s) @ tests n1"
    by (simp add: n1(1) t1 tests_append tp)
  then have tt: "ticket_tests (trace s2) ?t = tests n1"
    using ticket_tests_last[OF l3] by blast
  have obj: "snd (fst W) = ?t\<lparr>resolved := list_all phase_ok (tests n1)\<rparr>"
    unfolding w using update_ticket[of ext ?t s2] tt by simp
  have u: "update ext ?t s2 = ((fst (fst W), snd (fst W)), snd W)"
    by (simp add: w)
  have "\<exists>n2. trace (snd W) = trace s2 @ n2
     \<and> (case fst (fst W) of
          Returned u \<Rightarrow>
            n2 = Comment (number iss) (comment_text ext (snd (fst W)))
                   # (if resolved (snd (fst W)) then [Close (number iss)] else [])
        | Raised e \<Rightarrow>
            e = TicketUpdateFailure (number iss)
            \<and> (n2 = [] \<or> n2 = [Comment (number iss) (comment_text ext (snd (fst W)))]))"
  proof (cases "fst (fst W)")
    case (Returned x)
    from update_returned[OF u[unfolded Returned]] show ?thesis
      by (simp add: Returned)
  next
    case (Raised e)
    from update_raised[OF u[unfolded Raised]] show ?thesis
      by (auto simp: Raised)
  qed
  then obtain n2 where n2: "trace (snd W) = trace s2 @ n2"
     "(case fst (fst W) of
          Returned u \<Rightarrow>
            n2 = Comment (number iss) (comment_text ext (snd (fst W)))
                   # (if resolved (snd (fst W)) then [Close (number iss)] else [])
        | Raised e \<Rightarrow>
            e = TicketUpdateFailure (number iss)
            \<and> (n2 = [] \<or> n2 = [Comment (number iss) (comment_text ext (snd (fst W)))]))"
    by blast
  have "trace (snd W) = trace s @ P @ n1 @ n2"
    using n2(1) n1(1) t1 by simp
  moreover have "resolved (snd (fst W)) = list_all phase_ok (tests n1)"
    and "number (snd (fst W)) = number iss"
    using obj by simp_all
  moreover have "tests n2 = [] \<and> phases n2 = [] \<and> printed n2 = [] \<and> failed_relocks n2 = []"
    using n2(2)
    by (cases "fst (fst W)")
      (auto simp: tests_def phases_def printed_def failed_relocks_def)
  ultimately show ?thesis
    using n1(2-5) n2(2) by blast
qed

lemma process_issue_via_work:
  "process_issue ext verbose iss acc s =
     (case fst (fst (work_on_ticket ext verbose iss s)) of
        Raised e \<Rightarrow> (Raised e, snd (work_on_ticket ext verbose iss s))
      | Returned u \<Rightarrow>
          (if resolved (snd (fst (work_on_ticket ext verbose iss s)))
           then (Returned (snd (fst (work_on_ticket ext verbose iss s)),
                   fst acc @ [issue_tag (snd (fst (work_on_ticket ext verbose iss s)))], snd acc),
                 snd (work_on_ticket ext verbose iss s))
           else (Returned (snd (fst (work_on_ticket ext verbose iss s)),
                   fst acc, snd acc @ [issue_tag (snd (fst (work_on_ticket ext verbose iss s)))]),
                 snd (work_on_ticket ext verbose iss s))))"
proof -
  obtain r i s3 where w: "work_on_ticket ext verbose iss s = ((r, i), s3)"
    by (metis prod.collapse)
  show ?thesis
    by (cases r) (simp_all add: process_issue_def w)
qed

lemma process_issue_state:
  "snd (process_issue ext verbose iss acc s) = snd (work_on_ticket ext verbose iss s)"
  unfolding process_issue_via_work
  by (cases "fst (fst (work_on_ticket ext verbose iss s))") simp_all

lemma process_issue_returned:
  assumes "process_issue ext verbose iss acc s = (Returned (iss', acc'), s')"
  shows "number iss' = number iss"
    and "acc' = (if resolved iss' then (fst acc @ [issue_tag iss'], snd acc)
                 else (fst acc, snd acc @ [issue_tag iss']))"
    and "comments (trace s') = comments (trace s) @ [number iss]"
    and "closes (trace s') = closes (trace s) @ (if resolved iss' then [number iss] else [])"
    and "iss' = snd (fst (work_on_ticket ext verbose iss s))"
proof -
  let ?W = "work_on_ticket ext verbose iss s"
  from assms obtain u where r: "fst (fst ?W) = Returned u"
    unfolding process_issue_via_work by (cases "fst (fst ?W)") simp_all
  from assms r show i: "iss' = snd (fst ?W)"
    unfolding process_issue_via_work by (simp split: if_splits)
  from assms r show "acc' = (if resolved iss' then (fst acc @ [issue_tag iss'], snd acc)
                 else (fst acc, snd acc @ [issue_tag iss']))"
    unfolding process_issue_via_work by (auto split: if_splits)
  have s': "s' = snd ?W"
    using process_issue_state[of ext verbose iss acc s] assms by simp
  obtain n1 n2 where ev: "trace (snd ?W) = trace s @
        (if verbose then [Print (replicate 20 nl), Print (stringify ext iss)] else []) @ n1 @ n2"
      "comments n1 = []" "closes n1 = []"
      "number (snd (fst ?W)) = number iss"
      "n2 = Comment (number iss) (comment_text ext (snd (fst ?W)))
                   # (if resolved (snd (fst ?W)) then [Close (number iss)] else [])"
    using work_on_ticket_events[of ext verbose iss s] r by auto
  from ev(4) i show "number iss' = number iss"
    by simp
  from ev s' i show "comments (trace s') = comments (trace s) @ [number iss]"
    by (simp add: comments_append) (simp add: comments_def)
  from ev s' i show "closes (trace s') = closes (trace s) @ (if resolved iss' then [number iss] else [])"
    by (simp add: closes_append) (simp add: closes_def)
qed

lemma process_issue_raised:
  assumes "process_issue ext verbose iss acc s = (Raised e, s')"
  shows "e = TicketUpdateFailure (number iss)
     \<and> (comments (trace s') = comments (trace s)
        \<or> comments (trace s') = comments (trace s) @ [number iss])
     \<and> closes (trace s') = closes (trace s)
     \<and> phases (trace s') = phases (trace s) @ concat (map three_phases (commands iss))"
proof -
  let ?W = "work_on_ticket ext verbose iss s"
  from assms have r: "fst (fst ?W) = Raised e"
    unfolding process_issue_via_work by (cases "fst (fst ?W)") (simp_all split: if_splits)
  have s': "s' = snd ?W"
    using process_issue_state[of ext verbose iss acc s] assms by simp
  obtain n1 n2 where ev: "trace (snd ?W) = trace s @
        (if verbose then [Print (replicate 20 nl), Print (stringify ext iss)] else []) @ n1 @ n2"
      "phases n1 = concat (map three_phases (commands iss))"
      "comments n1 = []" "closes n1 = []" "phases n2 = []"
      "e = TicketUpdateFailure (number iss)"
      "n2 = [] \<or> n2 = [Comment (number iss) (comment_text ext (snd (fst ?W)))]"
    using work_on_ticket_events[of ext verbose iss s] r by auto
  have c: "comments (trace s') = comments (trace s) @ comments n2"
    using ev(1,3) s' by (simp add: comments_append) (simp add: comments_def)
  have "closes (trace s') = closes (trace s) @ closes n2"
    using ev(1,4) s' by (simp add: closes_append) (simp add: closes_def)
  moreover have "closes n2 = []"
    using ev(7) by (auto simp: closes_def)
  moreover have "comments n2 = [] \<or> comments n2 = [number iss]"
    using ev(7) by (auto simp: comments_def)
  moreover have "phases (trace s') = phases (trace s) @ concat (map three_phases (commands iss))"
    using ev(1,2,5) s' by (simp add: phases_append) (simp add: phases_def)
  ultimately show ?thesis
    using c ev(6) by auto
qed

subsection \<open>What decides the resolved flag (C1)\<close>


text \<open>
  On the concrete record store: ticket 100 is resolved when all three phases of its
  command succeed, and is not when the relock fails although the command succeeded.
\<close>

lemma resolved_after_examples:
  "resolved_after sim_ext False ticket_100 (start world_ok)
   \<and> \<not> resolved_after sim_ext False ticket_100 (start world_relock_fails)
   \<and> resolved_after sim_ext False ticket_100 (start world_tracker_fails)"
  by code_simp

subsection \<open>The loop over the tickets (C4, C6)\<close>

lemma process_issues_lists:
  assumes "process_issues ext verbose issues acc s = (Returned (issues', acc'), s')"
  shows "map number issues' = map number issues
     \<and> fst acc' = fst acc @ map issue_tag (filter resolved issues')
     \<and> snd acc' = snd acc @ map issue_tag (filter (\<lambda>i. \<not> resolved i) issues')
     \<and> comments (trace s') = comments (trace s) @ map number issues
     \<and> closes (trace s') = closes (trace s) @ map number (filter resolved issues')"
  using assms
proof (induction issues arbitrary: acc s issues')
  case Nil
  then show ?case by auto
next
  case (Cons iss rest)
  from Cons.prems obtain i1 a1 s1 where 1:
    "process_issue ext verbose iss acc s = (Returned (i1, a1), s1)"
    by (auto split: prod.splits outcome.splits)
  from Cons.prems 1 obtain r1 where 2:
    "process_issues ext verbose rest a1 s1 = (Returned (r1, acc'), s')"
    and is': "issues' = i1 # r1"
    by (auto split: prod.splits outcome.splits)
  note p = process_issue_returned[OF 1]
  note ih = Cons.IH[OF 2]
  show ?case
    using p ih by (auto simp: is')
qed

lemma process_issues_raise:
  assumes "process_issues ext verbose before acc s = (Returned (before', acc1), s1)"
    and "process_issue ext verbose iss acc1 s1 = (Raised e, s2)"
  shows "process_issues ext verbose (before @ iss # rest) acc s = (Raised e, s2)"
  using assms
proof (induction before arbitrary: acc s before')
  case Nil
  then show ?case by simp
next
  case (Cons b bs)
  from Cons.prems(1) obtain i1 a1 t1 where 1:
    "process_issue ext verbose b acc s = (Returned (i1, a1), t1)"
    by (auto split: prod.splits outcome.splits)
  from Cons.prems(1) 1 obtain r1 where 2:
    "process_issues ext verbose bs a1 t1 = (Returned (r1, acc1), s1)"
    by (auto split: prod.splits outcome.splits)
  from Cons.IH[OF 2 Cons.prems(2)] 1 show ?case
    by simp
qed

text \<open>
  C4, as the code has it. \<^verbatim>\<open>run_batch\<close> has no exception handler, so the work on one
  ticket is not isolated: when the tickets before a ticket went through and the work on
  that ticket raises, the loop over the whole batch raises the same exception in the very
  state in which it was raised, whatever tickets follow. The tickets after it are not
  processed: no phase is run for them and they are neither commented nor closed.
\<close>

theorem exception_leaves_the_batch:
  assumes "process_issues ext verbose before ([], []) s = (Returned (before', acc1), s1)"
    and "process_issue ext verbose iss acc1 s1 = (Raised e, s2)"
  shows "process_issues ext verbose (before @ iss # rest) ([], []) s = (Raised e, s2)"
  using assms by (rule process_issues_raise)

theorem exception_leaves_the_batch_witness:
  "process_issues sim_ext False ([] @ ticket_100 # [ticket_101]) ([], [])
       (start world_tracker_fails) =
     (Raised (TicketUpdateFailure 100),
      snd (process_issue sim_ext False ticket_100 ([], []) (start world_tracker_fails)))"
proof -
  have a: "process_issues sim_ext False [] ([], []) (start world_tracker_fails) =
      (Returned ([], ([], [])), start world_tracker_fails)"
    by simp
  have "fst (process_issue sim_ext False ticket_100 ([], []) (start world_tracker_fails)) =
      Raised (TicketUpdateFailure 100)"
    by code_simp
  then have b: "process_issue sim_ext False ticket_100 ([], []) (start world_tracker_fails) =
     (Raised (TicketUpdateFailure 100),
      snd (process_issue sim_ext False ticket_100 ([], []) (start world_tracker_fails)))"
    by (simp add: prod_eq_iff)
  show ?thesis
    by (rule exception_leaves_the_batch[OF a b])
qed

text \<open>
  The claim C4 as it is written fails: the tracker refuses the comment on ticket 100, the
  first of two tickets. \<^verbatim>\<open>run_batch\<close> ends with the exception; the three phases of ticket
  100 are all that ran, and ticket 101 got no phase, no comment and no close.
\<close>

theorem ticket_failure_stops_the_batch:
  "fst (run_batch sim_ext ''update_visit_data'' None [] False (start world_tracker_fails)) =
     Raised (TicketUpdateFailure 100)
   \<and> map number (sim_tickets world_tracker_fails) = [100, 101]
   \<and> phases (trace (snd (run_batch sim_ext ''update_visit_data'' None [] False
        (start world_tracker_fails)))) =
       [(Unlock, ''S001'', ''demographics''), (Rerun, ''S001'', ''demographics''),
        (Relock, ''S001'', ''demographics'')]
   \<and> comments (trace (snd (run_batch sim_ext ''update_visit_data'' None [] False
        (start world_tracker_fails)))) = []
   \<and> closes (trace (snd (run_batch sim_ext ''update_visit_data'' None [] False
        (start world_tracker_fails)))) = []"
  by code_simp

lemma process_issues_raised_split:
  assumes "process_issues ext verbose issues acc s = (Raised e, s')"
  shows "\<exists>done iss rest done' acc1 s1.
     issues = done @ iss # rest
     \<and> process_issues ext verbose done acc s = (Returned (done', acc1), s1)
     \<and> process_issue ext verbose iss acc1 s1 = (Raised e, s')"
  using assms
proof (induction issues arbitrary: acc s)
  case Nil
  then show ?case by simp
next
  case (Cons i rest)
  obtain r1 t1 where 1: "process_issue ext verbose i acc s = (r1, t1)"
    by fastforce
  show ?case
  proof (cases r1)
    case (Raised x)
    with Cons.prems 1 have "process_issue ext verbose i acc s = (Raised e, s')"
      by simp
    moreover have "process_issues ext verbose [] acc s = (Returned ([], acc), s)"
      by simp
    ultimately show ?thesis
      by (metis append_Nil)
  next
    case (Returned x)
    obtain i1 a1 where x: "x = (i1, a1)"
      by (cases x)
    from Cons.prems 1 Returned x have 2: "process_issues ext verbose rest a1 t1 = (Raised e, s')"
      by (auto split: prod.splits outcome.splits)
    from Cons.IH[OF 2] obtain dn iss rs dn' acc1 s1 where ih:
      "rest = dn @ iss # rs"
      "process_issues ext verbose dn a1 t1 = (Returned (dn', acc1), s1)"
      "process_issue ext verbose iss acc1 s1 = (Raised e, s')"
      by blast
    have "process_issues ext verbose (i # dn) acc s = (Returned (i1 # dn', acc1), s1)"
      using 1 Returned x ih(2) by simp
    moreover have "i # rest = (i # dn) @ iss # rs"
      using ih(1) by simp
    ultimately show ?thesis
      using ih(3) by blast
  qed
qed

text \<open>
  C6, as the code has it. A ticket is recorded only after its \<^verbatim>\<open>update\<close> has returned, and
  nothing catches an exception of \<^verbatim>\<open>update\<close>. When the loop returns, every ticket of the
  batch was commented exactly once and stands in exactly one list: in
  \<^verbatim>\<open>closed_issues\<close> iff its \<^verbatim>\<open>resolved\<close> flag is true, in \<^verbatim>\<open>commented_issues\<close> otherwise,
  and the tickets closed on the tracker are the resolved ones. When the loop raises, this
  holds for the tickets before the one whose \<^verbatim>\<open>update\<close> raised; that ticket was
  commented at most once, was not closed, and was recorded in neither list.
\<close>

theorem tickets_recorded_until_an_update_fails:
  "case process_issues ext verbose issues ([], []) s of
     (Returned (issues', closed_issues, commented_issues), s') \<Rightarrow>
        map number issues' = map number issues
      \<and> comments (trace s') = comments (trace s) @ map number issues
      \<and> closes (trace s') = closes (trace s) @ map number (filter resolved issues')
      \<and> closed_issues = map issue_tag (filter resolved issues')
      \<and> commented_issues = map issue_tag (filter (\<lambda>i. \<not> resolved i) issues')
      \<and> length closed_issues + length commented_issues = length issues
   | (Raised e, s') \<Rightarrow>
        (\<exists>done iss rest done' closed_issues commented_issues s1.
           issues = done @ iss # rest
         \<and> process_issues ext verbose done ([], []) s =
             (Returned (done', closed_issues, commented_issues), s1)
         \<and> process_issue ext verbose iss (closed_issues, commented_issues) s1 = (Raised e, s')
         \<and> e = TicketUpdateFailure (number iss)
         \<and> map number done' = map number done
         \<and> closed_issues = map issue_tag (filter resolved done')
         \<and> commented_issues = map issue_tag (filter (\<lambda>i. \<not> resolved i) done')
         \<and> (comments (trace s') = comments (trace s) @ map number done
            \<or> comments (trace s') = comments (trace s) @ map number done @ [number iss])
         \<and> closes (trace s') = closes (trace s) @ map number (filter resolved done'))"
proof -
  obtain r s' where p: "process_issues ext verbose issues ([], []) s = (r, s')"
    by fastforce
  show ?thesis
  proof (cases r)
    case (Returned x)
    obtain issues' cl co where x: "x = (issues', cl, co)"
      by (cases x)
    have p': "process_issues ext verbose issues ([], []) s = (Returned (issues', (cl, co)), s')"
      using p Returned x by simp
    note l = process_issues_lists[OF p']
    have "length (filter resolved issues') + length (filter (\<lambda>i. \<not> resolved i) issues')
        = length issues'"
      by (rule sum_length_filter_compl)
    moreover have "length issues' = length issues"
      using l by (metis length_map)
    ultimately have "length cl + length co = length issues"
      using l by simp
    with l show ?thesis
      by (simp add: p')
  next
    case (Raised e)
    with p have pr: "process_issues ext verbose issues ([], []) s = (Raised e, s')"
      by simp
    from process_issues_raised_split[OF pr] obtain dn iss rest dn' acc1 s1 where sp:
      "issues = dn @ iss # rest"
      "process_issues ext verbose dn ([], []) s = (Returned (dn', acc1), s1)"
      "process_issue ext verbose iss acc1 s1 = (Raised e, s')"
      by blast
    obtain cl co where a: "acc1 = (cl, co)"
      by (cases acc1)
    note l = process_issues_lists[OF sp(2)]
    note f = process_issue_raised[OF sp(3)]
    have "comments (trace s') = comments (trace s) @ map number dn
        \<or> comments (trace s') = comments (trace s) @ map number dn @ [number iss]"
      using l f by auto
    moreover have "closes (trace s') = closes (trace s) @ map number (filter resolved dn')"
      using l f by simp
    moreover have "cl = map issue_tag (filter resolved dn')"
      and "co = map issue_tag (filter (\<lambda>i. \<not> resolved i) dn')"
      and "map number dn' = map number dn"
      using l a by simp_all
    ultimately have "\<exists>done iss rest done' closed_issues commented_issues s1.
           issues = done @ iss # rest
         \<and> process_issues ext verbose done ([], []) s =
             (Returned (done', closed_issues, commented_issues), s1)
         \<and> process_issue ext verbose iss (closed_issues, commented_issues) s1 = (Raised e, s')
         \<and> e = TicketUpdateFailure (number iss)
         \<and> map number done' = map number done
         \<and> closed_issues = map issue_tag (filter resolved done')
         \<and> commented_issues = map issue_tag (filter (\<lambda>i. \<not> resolved i) done')
         \<and> (comments (trace s') = comments (trace s) @ map number done
            \<or> comments (trace s') = comments (trace s) @ map number done @ [number iss])
         \<and> closes (trace s') = closes (trace s) @ map number (filter resolved done')"
      using sp a f by blast
    then show ?thesis
      by (simp add: pr)
  qed
qed

theorem tickets_recorded_until_an_update_fails_witness:
  "(\<exists>issues' s'.
      process_issues sim_ext False [ticket_100, ticket_101] ([], []) (start world_relock_fails) =
        (Returned (issues', [''#101''], [''#100'']), s')
      \<and> map resolved issues' = [False, True]
      \<and> comments (trace s') = [100, 101])
   \<and> (\<exists>s'.
      process_issues sim_ext False [ticket_100, ticket_101] ([], []) (start world_close_fails) =
        (Raised (TicketUpdateFailure 100), s')
      \<and> closes (trace s') = [])"
proof -
  define r where
    "r = process_issues sim_ext False [ticket_100, ticket_101] ([], []) (start world_relock_fails)"
  define q where
    "q = process_issues sim_ext False [ticket_100, ticket_101] ([], []) (start world_close_fails)"
  have n: "map number [ticket_100, ticket_101] = [100, 101]"
    by (simp add: ticket_100_def ticket_101_def)
  have e: "\<And>w. comments (trace (start w)) = [] \<and> closes (trace (start w)) = []"
    by (simp add: start_def comments_def closes_def)
  have "case fst r of
          Returned (i, c, m) \<Rightarrow> c = [''#101''] \<and> m = [''#100''] \<and> map resolved i = [False, True]
        | Raised x \<Rightarrow> False"
    unfolding r_def by code_simp
  then obtain I where fr: "fst r = Returned (I, [''#101''], [''#100''])"
    and res: "map resolved I = [False, True]"
    by (cases "fst r") auto
  then have run: "process_issues sim_ext False [ticket_100, ticket_101] ([], [])
      (start world_relock_fails) = (Returned (I, [''#101''], [''#100'']), snd r)"
    by (simp add: r_def prod_eq_iff)
  note t0 = tickets_recorded_until_an_update_fails
    [where ext = sim_ext and verbose = False and issues = "[ticket_100, ticket_101]"
      and s = "start world_relock_fails", unfolded run prod.case outcome.case]
  from t0 have "comments (trace (snd r)) =
      comments (trace (start world_relock_fails)) @ map number [ticket_100, ticket_101]"
    by blast
  then have c: "comments (trace (snd r)) = [100, 101]"
    using n e by simp
  have "fst q = Raised (TicketUpdateFailure 100)"
    unfolding q_def by code_simp
  then have fail: "process_issues sim_ext False [ticket_100, ticket_101] ([], [])
      (start world_close_fails) = (Raised (TicketUpdateFailure 100), snd q)"
    by (simp add: q_def prod_eq_iff)
  have k: "closes (trace (snd q)) = []"
    unfolding q_def by code_simp
  have a: "\<exists>issues' s'.
      process_issues sim_ext False [ticket_100, ticket_101] ([], []) (start world_relock_fails) =
        (Returned (issues', [''#101''], [''#100'']), s')
      \<and> map resolved issues' = [False, True]
      \<and> comments (trace s') = [100, 101]"
    by (rule exI[of _ I], rule exI[of _ "snd r"]) (use run res c in simp)
  have b: "\<exists>s'.
      process_issues sim_ext False [ticket_100, ticket_101] ([], []) (start world_close_fails) =
        (Raised (TicketUpdateFailure 100), s')
      \<and> closes (trace s') = []"
    by (rule exI[of _ "snd q"]) (use fail k in simp)
  from a b show ?thesis
    by (rule conjI)
qed

text \<open>
  The claim C6 as it is written fails: the tracker takes the comment on ticket 100 and
  refuses to close it. All three phases of the ticket's command succeeded, so the ticket
  is resolved and was commented; it was never closed, the loop body raised before the
  ticket was recorded in either list, and \<^verbatim>\<open>run_batch\<close>, though called with \<^verbatim>\<open>verbose\<close>,
  ended without printing the two lists.
\<close>

theorem resolved_ticket_left_unrecorded:
  "resolved_after sim_ext True ticket_100 (start world_close_fails)
   \<and> fst (process_issue sim_ext True ticket_100 ([], []) (start world_close_fails)) =
       Raised (TicketUpdateFailure 100)
   \<and> fst (run_batch sim_ext ''update_visit_data'' None [] True (start world_close_fails)) =
       Raised (TicketUpdateFailure 100)
   \<and> comments (trace (snd (run_batch sim_ext ''update_visit_data'' None [] True
        (start world_close_fails)))) = [100]
   \<and> closes (trace (snd (run_batch sim_ext ''update_visit_data'' None [] True
        (start world_close_fails)))) = []
   \<and> printed (trace (snd (run_batch sim_ext ''update_visit_data'' None [] True
        (start world_close_fails)))) = [replicate 20 nl, body ticket_100]"
  by code_simp

subsection \<open>What is printed (C5)\<close>

lemma process_issue_quiet:
  "\<exists>new. trace (snd (process_issue ext False iss acc s)) = trace s @ new
     \<and> printed new = map (relock_report ext) (failed_relocks new)"
proof -
  obtain n1 n2 where ev: "trace (snd (work_on_ticket ext False iss s)) = trace s @ n1 @ n2"
      "printed n1 = map (relock_report ext) (failed_relocks n1)"
      "printed n2 = []" "failed_relocks n2 = []"
    using work_on_ticket_events[of ext False iss s] by auto
  have "trace (snd (process_issue ext False iss acc s)) = trace s @ (n1 @ n2)"
    using ev(1) by (simp add: process_issue_state)
  moreover have "printed (n1 @ n2) = map (relock_report ext) (failed_relocks (n1 @ n2))"
    by (simp add: printed_append failed_relocks_append ev(2,3,4))
  ultimately show ?thesis
    by blast
qed

lemma process_issues_quiet:
  "\<exists>new. trace (snd (process_issues ext False issues acc s)) = trace s @ new
     \<and> printed new = map (relock_report ext) (failed_relocks new)"
proof (induction issues arbitrary: acc s)
  case Nil
  show ?case by (simp add: printed_def failed_relocks_def)
next
  case (Cons iss rest)
  obtain r1 s1 where 1: "process_issue ext False iss acc s = (r1, s1)"
    by fastforce
  obtain n1 where n1: "trace s1 = trace s @ n1"
      "printed n1 = map (relock_report ext) (failed_relocks n1)"
    using process_issue_quiet[of ext iss acc s] 1 by auto
  show ?case
  proof (cases r1)
    case (Raised e)
    then show ?thesis
      using 1 n1 by auto
  next
    case (Returned x)
    obtain i1 a1 where x: "x = (i1, a1)"
      by (cases x)
    obtain n2 where n2: "trace (snd (process_issues ext False rest a1 s1)) = trace s1 @ n2"
      "printed n2 = map (relock_report ext) (failed_relocks n2)"
      using Cons.IH[of a1 s1] by auto
    have "snd (process_issues ext False (iss # rest) acc s) =
        snd (process_issues ext False rest a1 s1)"
      using 1 Returned x by (simp split: prod.splits outcome.splits)
    then have "trace (snd (process_issues ext False (iss # rest) acc s)) = trace s @ (n1 @ n2)"
      using n1(1) n2(1) by simp
    moreover have "printed (n1 @ n2) = map (relock_report ext) (failed_relocks (n1 @ n2))"
      by (simp add: printed_append failed_relocks_append n1(2) n2(2))
    ultimately show ?thesis
      by blast
  qed
qed

lemma process_issue_loud:
  assumes "process_issue ext True iss acc s = (r, s')"
  shows "\<exists>new. trace s' = trace s @ new
     \<and> replicate 20 nl \<in> set (printed new) \<and> stringify ext iss \<in> set (printed new)"
proof -
  obtain n1 n2 where ev: "trace (snd (work_on_ticket ext True iss s)) =
      trace s @ [Print (replicate 20 nl), Print (stringify ext iss)] @ n1 @ n2"
    using work_on_ticket_events[of ext True iss s] by auto
  have "s' = snd (work_on_ticket ext True iss s)"
    using assms process_issue_state[of ext True iss acc s] by simp
  then have "trace s' = trace s @ ([Print (replicate 20 nl), Print (stringify ext iss)] @ n1 @ n2)"
    using ev by simp
  moreover have "replicate 20 nl \<in> set (printed ([Print (replicate 20 nl), Print (stringify ext iss)] @ n1 @ n2))
    \<and> stringify ext iss \<in> set (printed ([Print (replicate 20 nl), Print (stringify ext iss)] @ n1 @ n2))"
    by (simp add: printed_def)
  ultimately show ?thesis
    by blast
qed

lemma process_issues_loud:
  assumes "process_issues ext True issues acc s = (Returned x, s')"
  shows "\<exists>new. trace s' = trace s @ new
     \<and> (issues \<noteq> [] \<longrightarrow> replicate 20 nl \<in> set (printed new))
     \<and> stringify ext ` set issues \<subseteq> set (printed new)"
  using assms
proof (induction issues arbitrary: acc s x)
  case Nil
  then show ?case by simp
next
  case (Cons iss rest)
  from Cons.prems obtain i1 a1 s1 where 1:
    "process_issue ext True iss acc s = (Returned (i1, a1), s1)"
    by (auto split: prod.splits outcome.splits)
  from Cons.prems 1 obtain r1 a2 where 2:
    "process_issues ext True rest a1 s1 = (Returned (r1, a2), s')"
    by (auto split: prod.splits outcome.splits)
  obtain n1 where n1: "trace s1 = trace s @ n1"
     "replicate 20 nl \<in> set (printed n1)" "stringify ext iss \<in> set (printed n1)"
    using process_issue_loud[OF 1] by auto
  obtain n2 where n2: "trace s' = trace s1 @ n2"
     "stringify ext ` set rest \<subseteq> set (printed n2)"
    using Cons.IH[OF 2] by auto
  have "trace s' = trace s @ (n1 @ n2)"
    using n1(1) n2(1) by simp
  moreover have "replicate 20 nl \<in> set (printed (n1 @ n2))"
    using n1(2) by (simp add: printed_append)
  moreover have "stringify ext ` set (iss # rest) \<subseteq> set (printed (n1 @ n2))"
    using n1(3) n2(2) by (auto simp: printed_append)
  ultimately show ?case
    by blast
qed

lemma process_issue_grows:
  "\<exists>new. trace (snd (process_issue ext verbose iss acc s)) = trace s @ new"
  using work_on_ticket_events[of ext verbose iss s]
  by (auto simp: process_issue_state)

lemma process_issues_grows:
  "\<exists>new. trace (snd (process_issues ext verbose issues acc s)) = trace s @ new"
proof (induction issues arbitrary: acc s)
  case Nil
  show ?case by simp
next
  case (Cons iss rest)
  obtain r1 s1 where 1: "process_issue ext verbose iss acc s = (r1, s1)"
    by fastforce
  obtain n1 where n1: "trace s1 = trace s @ n1"
    using process_issue_grows[of ext verbose iss acc s] 1 by auto
  show ?case
  proof (cases r1)
    case (Raised e)
    then show ?thesis
      using 1 n1 by auto
  next
    case (Returned x)
    obtain i1 a1 where x: "x = (i1, a1)"
      by (cases x)
    obtain n2 where n2: "trace (snd (process_issues ext verbose rest a1 s1)) = trace s1 @ n2"
      using Cons.IH[of a1 s1] by auto
    have "snd (process_issues ext verbose (iss # rest) acc s) =
        snd (process_issues ext verbose rest a1 s1)"
      using 1 Returned x by (simp split: prod.splits outcome.splits)
    then have "trace (snd (process_issues ext verbose (iss # rest) acc s)) = trace s @ (n1 @ n2)"
      using n1 n2 by simp
    then show ?thesis
      by blast
  qed
qed

text \<open>
  C5, as the code has it. The summary of closed and commented tickets stands under
  \<^verbatim>\<open>if verbose\<close>. With \<^verbatim>\<open>verbose\<close> false \<^verbatim>\<open>run_batch\<close> prints no summary: once the
  verification has passed, the only lines it prints are the reports of failed relocks.
  With \<^verbatim>\<open>verbose\<close> true and a batch that runs to its end, it prints the diagnostic text of
  every ticket and, as its last two lines, the summary of the closed and of the commented
  ticket identifiers: the two lists that the loop over the tickets returned, which hold
  the resolved tickets, the ones closed on the tracker, and the other tickets of the
  batch, all of them commented.
\<close>

theorem summary_only_when_verbose:
  assumes "scraped = scrape_matching_issues ext metadata verbose
        ''redcap_import_record:Failed to import into REDCap'' label issue_numbers
        (get_class_for_label ext label) (world s)"
    and "verify_scraped_issues ext scraped"
  shows "\<exists>new. trace (snd (run_batch ext label issue_numbers metadata verbose s)) = trace s @ new
     \<and> (\<not> verbose \<longrightarrow> printed new = map (relock_report ext) (failed_relocks new))
     \<and> (verbose \<and> fst (run_batch ext label issue_numbers metadata verbose s) = Returned ()
          \<longrightarrow> (\<exists>front issues' closed_issues commented_issues s1.
                 process_issues ext verbose scraped ([], []) s =
                   (Returned (issues', closed_issues, commented_issues), s1)
               \<and> printed new = front @
                   [closed_summary closed_issues, commented_summary commented_issues]
               \<and> closed_issues = map issue_tag (filter resolved issues')
               \<and> commented_issues = map issue_tag (filter (\<lambda>i. \<not> resolved i) issues')
               \<and> map number issues' = map number scraped
               \<and> closes new = map number (filter resolved issues')
               \<and> comments new = map number scraped
               \<and> stringify ext ` set scraped \<subseteq> set front))"
proof (cases verbose)
  case False
  have "snd (run_batch ext label issue_numbers metadata verbose s) =
      snd (process_issues ext False scraped ([], []) s)"
    using assms False
    by (simp add: run_batch_def Let_def split: prod.splits outcome.splits)
  then show ?thesis
    using process_issues_quiet[of ext scraped "([], [])" s] False by auto
next
  case True
  obtain r s1 where p: "process_issues ext True scraped ([], []) s = (r, s1)"
    by fastforce
  show ?thesis
  proof (cases r)
    case (Raised e)
    then have run: "run_batch ext label issue_numbers metadata verbose s = (Raised e, s1)"
      using assms True p by (simp add: run_batch_def Let_def)
    obtain n1 where "trace s1 = trace s @ n1"
      using process_issues_grows[of ext True scraped "([], [])" s] p by auto
    then show ?thesis
      using run True by auto
  next
    case (Returned x)
    obtain issues' cl co where x: "x = (issues', cl, co)"
      by (cases x)
    have p': "process_issues ext True scraped ([], []) s = (Returned (issues', (cl, co)), s1)"
      using p Returned x by simp
    have run: "run_batch ext label issue_numbers metadata verbose s =
        (Returned (), print (commented_summary co) (print (closed_summary cl) s1))"
      using assms True p' by (simp add: run_batch_def Let_def)
    note l = process_issues_lists[OF p']
    obtain n1 where n1: "trace s1 = trace s @ n1"
        "stringify ext ` set scraped \<subseteq> set (printed n1)"
      using process_issues_loud[OF p'] by auto
    have "comments (trace s) @ comments n1 = comments (trace s) @ map number scraped"
      using l n1(1) by (simp add: comments_append)
    then have cm: "comments n1 = map number scraped"
      by simp
    have "closes (trace s) @ closes n1 = closes (trace s) @ map number (filter resolved issues')"
      using l n1(1) by (simp add: closes_append)
    then have cl1: "closes n1 = map number (filter resolved issues')"
      by simp
    let ?new = "n1 @ [Print (closed_summary cl), Print (commented_summary co)]"
    have t: "trace (snd (run_batch ext label issue_numbers metadata verbose s)) = trace s @ ?new"
      using run n1(1) by (simp add: print_def)
    have "printed ?new = printed n1 @ [closed_summary cl, commented_summary co]"
      by (simp add: printed_def)
    moreover have "cl = map issue_tag (filter resolved issues')"
      and "co = map issue_tag (filter (\<lambda>i. \<not> resolved i) issues')"
      and "map number issues' = map number scraped"
      using l by simp_all
    moreover have "closes ?new = map number (filter resolved issues')"
      using cl1 by (simp add: closes_append) (simp add: closes_def)
    moreover have "comments ?new = map number scraped"
      using cm by (simp add: comments_append) (simp add: comments_def)
    moreover have "process_issues ext verbose scraped ([], []) s = (Returned (issues', cl, co), s1)"
      using p' True by simp
    ultimately have inner: "\<exists>front issues' closed_issues commented_issues s1.
                 process_issues ext verbose scraped ([], []) s =
                   (Returned (issues', closed_issues, commented_issues), s1)
               \<and> printed ?new = front @
                   [closed_summary closed_issues, commented_summary commented_issues]
               \<and> closed_issues = map issue_tag (filter resolved issues')
               \<and> commented_issues = map issue_tag (filter (\<lambda>i. \<not> resolved i) issues')
               \<and> map number issues' = map number scraped
               \<and> closes ?new = map number (filter resolved issues')
               \<and> comments ?new = map number scraped
               \<and> stringify ext ` set scraped \<subseteq> set front"
      using n1(2) by blast
    show ?thesis
    proof (intro exI[of _ ?new] conjI impI)
      show "trace (snd (run_batch ext label issue_numbers metadata verbose s)) = trace s @ ?new"
        by (rule t)
    next
      assume "\<not> verbose"
      with True show "printed ?new = map (relock_report ext) (failed_relocks ?new)"
        by simp
    next
      show "\<exists>front issues' closed_issues commented_issues s1.
                 process_issues ext verbose scraped ([], []) s =
                   (Returned (issues', closed_issues, commented_issues), s1)
               \<and> printed ?new = front @
                   [closed_summary closed_issues, commented_summary commented_issues]
               \<and> closed_issues = map issue_tag (filter resolved issues')
               \<and> commented_issues = map issue_tag (filter (\<lambda>i. \<not> resolved i) issues')
               \<and> map number issues' = map number scraped
               \<and> closes ?new = map number (filter resolved issues')
               \<and> comments ?new = map number scraped
               \<and> stringify ext ` set scraped \<subseteq> set front"
        by (rule inner)
    qed
  qed
qed

theorem summary_only_when_verbose_witness:
  "(\<exists>new. trace (snd (run_batch sim_ext ''update_visit_data'' None [] False
        (start world_relock_fails))) = new
      \<and> printed new = map (relock_report sim_ext) (failed_relocks new))
   \<and> (\<exists>front issues'.
        printed (trace (snd (run_batch sim_ext ''update_visit_data'' None [] True
          (start world_relock_fails)))) =
          front @ [closed_summary (map issue_tag (filter resolved issues')),
                   commented_summary (map issue_tag (filter (\<lambda>i. \<not> resolved i) issues'))]
      \<and> map number issues' = [100, 101]
      \<and> closes (trace (snd (run_batch sim_ext ''update_visit_data'' None [] True
          (start world_relock_fails)))) = map number (filter resolved issues'))"
proof -
  have sc: "\<And>v. [ticket_100, ticket_101] = scrape_matching_issues sim_ext [] v
        ''redcap_import_record:Failed to import into REDCap'' ''update_visit_data'' None
        (get_class_for_label sim_ext ''update_visit_data'') (world (start world_relock_fails))"
    by (simp add: sim_ext_def start_def world_relock_fails_def)
  have ok: "verify_scraped_issues sim_ext [ticket_100, ticket_101]"
    by (simp add: sim_ext_def sim_targets_def ticket_100_def ticket_101_def new_command_def)
  have e: "trace (start world_relock_fails) = []"
    by (simp add: start_def)
  have ret: "fst (run_batch sim_ext ''update_visit_data'' None [] True
        (start world_relock_fails)) = Returned ()"
    by code_simp
  have n: "map number [ticket_100, ticket_101] = [100, 101]"
    by (simp add: ticket_100_def ticket_101_def)
  from summary_only_when_verbose[OF sc[of False] ok] e
  have quiet: "\<exists>new. trace (snd (run_batch sim_ext ''update_visit_data'' None [] False
        (start world_relock_fails))) = new
      \<and> printed new = map (relock_report sim_ext) (failed_relocks new)"
    by simp
  note T = summary_only_when_verbose[OF sc[of True] ok]
  from T obtain new where tv:
    "trace (snd (run_batch sim_ext ''update_visit_data'' None [] True
          (start world_relock_fails))) = trace (start world_relock_fails) @ new
     \<and> (\<not> True \<longrightarrow> printed new = map (relock_report sim_ext) (failed_relocks new))
     \<and> (True \<and> fst (run_batch sim_ext ''update_visit_data'' None [] True
          (start world_relock_fails)) = Returned ()
          \<longrightarrow> (\<exists>front issues' closed_issues commented_issues s1.
                 process_issues sim_ext True [ticket_100, ticket_101] ([], [])
                   (start world_relock_fails) =
                   (Returned (issues', closed_issues, commented_issues), s1)
               \<and> printed new = front @
                   [closed_summary closed_issues, commented_summary commented_issues]
               \<and> closed_issues = map issue_tag (filter resolved issues')
               \<and> commented_issues = map issue_tag (filter (\<lambda>i. \<not> resolved i) issues')
               \<and> map number issues' = map number [ticket_100, ticket_101]
               \<and> closes new = map number (filter resolved issues')
               \<and> comments new = map number [ticket_100, ticket_101]
               \<and> stringify sim_ext ` set [ticket_100, ticket_101] \<subseteq> set front))"
    ..
  note t = conjunct1[OF tv]
  have pre: "True \<and> fst (run_batch sim_ext ''update_visit_data'' None [] True
          (start world_relock_fails)) = Returned ()"
    using ret by simp
  note inner = mp[OF conjunct2[OF conjunct2[OF tv]] pre]
  from inner obtain front issues' cl co where
    f0: "printed new = front @ [closed_summary cl, commented_summary co]"
    and c1: "cl = map issue_tag (filter resolved issues')"
    and c2: "co = map issue_tag (filter (\<lambda>i. \<not> resolved i) issues')"
    and m: "map number issues' = map number [ticket_100, ticket_101]"
    and k: "closes new = map number (filter resolved issues')"
    by (elim exE conjE) (rule that; assumption)
  have f: "printed new = front @
                   [closed_summary (map issue_tag (filter resolved issues')),
                    commented_summary (map issue_tag (filter (\<lambda>i. \<not> resolved i) issues'))]"
    using f0 c1 c2 by simp
  have tn: "trace (snd (run_batch sim_ext ''update_visit_data'' None [] True
          (start world_relock_fails))) = new"
    using t e by simp
  have loud: "\<exists>front issues'.
        printed (trace (snd (run_batch sim_ext ''update_visit_data'' None [] True
          (start world_relock_fails)))) =
          front @ [closed_summary (map issue_tag (filter resolved issues')),
                   commented_summary (map issue_tag (filter (\<lambda>i. \<not> resolved i) issues'))]
      \<and> map number issues' = [100, 101]
      \<and> closes (trace (snd (run_batch sim_ext ''update_visit_data'' None [] True
          (start world_relock_fails)))) = map number (filter resolved issues')"
    by (rule exI[of _ front], rule exI[of _ issues']) (use f m k n tn in simp)
  from quiet loud show ?thesis
    by (rule conjI)
qed

text \<open>
  The claim C5 as it is written fails: without \<^verbatim>\<open>verbose\<close> a batch in which every phase
  succeeds returns, closes tickets 100 and 101, and prints nothing at all.
\<close>

theorem quiet_run_prints_no_summary:
  "printed (trace (snd (run_batch sim_ext ''update_visit_data'' None [] False
      (start world_ok)))) = []
   \<and> fst (run_batch sim_ext ''update_visit_data'' None [] False (start world_ok)) = Returned ()
   \<and> closes (trace (snd (run_batch sim_ext ''update_visit_data'' None [] False
      (start world_ok)))) = [100, 101]"
  by code_simp

subsection \<open>The metadata table and the connection (C8, C10)\<close>

lemma set_unique: "set (unique xs) = set xs"
  by (induction xs rule: unique.induct) auto

lemma distinct_unique: "distinct (unique xs)"
  by (induction xs rule: unique.induct) (auto simp: set_unique)

text \<open>
  C8. The metadata table that \<^verbatim>\<open>main\<close> builds and passes to \<^verbatim>\<open>run_batch\<close> is the table
  of \<^verbatim>\<open>export_metadata\<close> followed by the synthesized rows: all original
  \<^verbatim>\<open>(form_name, field_name)\<close> rows are kept, each synthesized row pairs a form with the
  field \<^verbatim>\<open><form>_complete\<close>, no form has two synthesized rows, and the forms of the
  synthesized rows are exactly the forms of the original table.
\<close>

theorem metadata_gets_complete_fields:
  "main ext (Inr (Some api)) export_metadata
      \<lparr>arg_labels = Some (label # rest), arg_issue_numbers = nums, arg_verbose = v\<rparr> s =
     (case run_batch ext label nums (add_complete_fields (export_metadata api)) v s of
        (Raised e, s') \<Rightarrow> (Raised e, s')
      | (Returned u, s') \<Rightarrow>
          run_labels ext rest nums (add_complete_fields (export_metadata api)) v s')
   \<and> (\<exists>synth. add_complete_fields metadata = metadata @ synth
        \<and> map snd synth = map (\<lambda>row. fst row @ ''_complete'') synth
        \<and> distinct (map fst synth)
        \<and> set (map fst synth) = fst ` set metadata)"
proof -
  have m: "main ext (Inr (Some api)) export_metadata
      \<lparr>arg_labels = Some (label # rest), arg_issue_numbers = nums, arg_verbose = v\<rparr> s =
     (case run_batch ext label nums (add_complete_fields (export_metadata api)) v s of
        (Raised e, s') \<Rightarrow> (Raised e, s')
      | (Returned u, s') \<Rightarrow>
          run_labels ext rest nums (add_complete_fields (export_metadata api)) v s')"
    by (simp add: main_def connect_def Let_def)
  let ?synth = "complete_fields metadata"
  have fs: "map fst ?synth = unique (map fst metadata)"
    by (simp add: complete_fields_def Let_def comp_def)
  have "add_complete_fields metadata = metadata @ ?synth"
    by (simp add: add_complete_fields_def)
  moreover have "map snd ?synth = map (\<lambda>row. fst row @ ''_complete'') ?synth"
    by (simp add: complete_fields_def Let_def comp_def)
  moreover have "distinct (map fst ?synth)"
    unfolding fs by (rule distinct_unique)
  moreover have "set (map fst ?synth) = fst ` set metadata"
    unfolding fs by (simp add: set_unique)
  ultimately show ?thesis
    using m by blast
qed

lemma complete_fields_example:
  "add_complete_fields [(''visit'', ''visit_date''), (''mri'', ''mri_xnat''), (''visit'', ''visit_notes'')]
     = [(''visit'', ''visit_date''), (''mri'', ''mri_xnat''), (''visit'', ''visit_notes''),
        (''visit'', ''visit_complete''), (''mri'', ''mri_complete'')]"
  by (simp add: add_complete_fields_def complete_fields_def)

text \<open>
  C10 on the code. \<^verbatim>\<open>main\<close> catches the exception of \<^verbatim>\<open>connect_server\<close> and prints
  \<^verbatim>\<open>e.message\<close>. An exception of Python 3 has no attribute \<^verbatim>\<open>message\<close> unless its class
  defines one, so for a \<^verbatim>\<open>ConnectionError\<close> the handler itself raises
  \<^verbatim>\<open>AttributeError\<close>: \<^verbatim>\<open>main\<close> ends there, prints nothing, does not go on with a null
  connection and never attempts \<^verbatim>\<open>export_metadata\<close>.
\<close>

theorem connection_failure_handler_raises:
  "main ext (Inl \<lparr>exc_class = ''ConnectionError'', exc_message = None\<rparr>) export_metadata a s =
     (Raised (AttributeError ''ConnectionError'' ''message''), s)"
  by (simp add: main_def connect_def)

text \<open>
  With an exception that carries a \<^verbatim>\<open>message\<close> the handler prints it and \<^verbatim>\<open>main\<close> goes on
  with \<^verbatim>\<open>redcap_api = None\<close>: the call of \<^verbatim>\<open>export_metadata\<close> on it raises. Either way a
  failed connection ends \<^verbatim>\<open>main\<close> with an exception.
\<close>

lemma connection_failure_with_message:
  "main ext (Inl \<lparr>exc_class = cls, exc_message = Some m\<rparr>) export_metadata a s =
     (Raised (AttributeError ''NoneType'' ''export_metadata''), print m s)"
  by (simp add: main_def connect_def)

lemma connection_failure_never_clean:
  "\<exists>x s'. main ext (Inl e) export_metadata a s = (Raised x, s')"
  by (cases "exc_message e") (simp_all add: main_def connect_def)

end
